theory Spec2Isabelle
  imports Main "HOL-Library.Sublist" "HOL-Library.Multiset" "HOL-Library.AList"
begin

section \<open>Characters and the string primitives of \<^verbatim>\<open>main.py\<close>\<close>

text \<open>
  A Python \<^verbatim>\<open>str\<close> is a sequence of code points. The model reads a HOL \<^typ>\<open>char\<close> as one
  code point in the range 0..255 (the Latin-1 block of Unicode), so \<^typ>\<open>string\<close> stands
  for the Python strings over that block and \<^const>\<open>length\<close> counts code points.
  The two character classes below are those of \<^verbatim>\<open>re\<close> on \<^verbatim>\<open>str\<close> patterns (no
  \<^verbatim>\<open>re.ASCII\<close> flag) restricted to that range: \<^verbatim>\<open>\s\<close> is \<^verbatim>\<open>str.isspace\<close>,
  \<^verbatim>\<open>\w\<close> is \<^verbatim>\<open>str.isalnum\<close> or the underscore.
\<close>

definition is_space :: "char \<Rightarrow> bool" where
  "is_space c =
     (let n = (of_char c :: nat)
      in (9 \<le> n \<and> n \<le> 13) \<or> (28 \<le> n \<and> n \<le> 32) \<or> n = 133 \<or> n = 160)"

definition is_alnum :: "char \<Rightarrow> bool" where
  "is_alnum c =
     (let n = (of_char c :: nat)
      in (48 \<le> n \<and> n \<le> 57) \<or> (65 \<le> n \<and> n \<le> 90) \<or> (97 \<le> n \<and> n \<le> 122)
         \<or> n = 170 \<or> n = 178 \<or> n = 179 \<or> n = 181 \<or> n = 185 \<or> n = 186
         \<or> (188 \<le> n \<and> n \<le> 190) \<or> (192 \<le> n \<and> n \<le> 214)
         \<or> (216 \<le> n \<and> n \<le> 246) \<or> (248 \<le> n \<and> n \<le> 255))"

definition is_word :: "char \<Rightarrow> bool" where
  "is_word c = (is_alnum c \<or> c = CHR ''_'')"

text \<open>
  \<^verbatim>\<open>s.replace(old, new)\<close>: the occurrences of \<^verbatim>\<open>old\<close> are replaced from left to right
  without overlap; with an empty \<^verbatim>\<open>old\<close> Python puts \<^verbatim>\<open>new\<close> before every character
  and at the end.
\<close>

fun replace_scan :: "string \<Rightarrow> string \<Rightarrow> string \<Rightarrow> string" where
  "replace_scan old new [] = []"
| "replace_scan old new (c # cs) =
     (if prefix old (c # cs) then new @ replace_scan old new (drop (length old - 1) cs)
      else c # replace_scan old new cs)"

definition str_replace :: "string \<Rightarrow> string \<Rightarrow> string \<Rightarrow> string" where
  "str_replace old new s =
     (if old = [] then new @ concat (map (\<lambda>c. c # new) s) else replace_scan old new s)"

text \<open>\<^verbatim>\<open>s.strip()\<close>: whitespace is removed at both ends.\<close>

definition strip :: "string \<Rightarrow> string" where
  "strip s = rev (dropWhile is_space (rev (dropWhile is_space s)))"

text \<open>\<^verbatim>\<open>re.sub(r"[^\w\s]", "", s)\<close>: every character outside both classes is deleted.\<close>

definition remove_special :: "string \<Rightarrow> string" where
  "remove_special s = filter (\<lambda>c. is_word c \<or> is_space c) s"

text \<open>\<^verbatim>\<open>re.sub(r"\s+", "_", s)\<close>: every maximal run of whitespace becomes one underscore.\<close>

function spaces_to_underscore :: "string \<Rightarrow> string" where
  "spaces_to_underscore [] = []"
| "spaces_to_underscore (c # cs) =
     (if is_space c then CHR ''_'' # spaces_to_underscore (dropWhile is_space cs)
      else c # spaces_to_underscore cs)"
  by pat_completeness auto
termination
  by (relation "measure length") (auto simp: less_Suc_eq_le length_dropWhile_le)

text \<open>\<^verbatim>\<open>clean_category_name\<close>, lines 25-34.\<close>

definition clean_category_name :: "string \<Rightarrow> string" where
  "clean_category_name name =
     (let cleaned_name = str_replace ''&nbsp;'' '' '' name;
          cleaned_name = remove_special cleaned_name;
          cleaned_name = spaces_to_underscore (strip cleaned_name)
      in cleaned_name)"

section \<open>The link extractor\<close>

text \<open>
  \<^verbatim>\<open>extract_m3u_links_with_names\<close> (lines 50-58) runs \<^verbatim>\<open>re.findall\<close> with the pattern
  \<^verbatim>\<open><td>(.+?)</td>.*?<code>(https://[^\s]+\.m3u(?:8)?)</code>\<close>.
  Python's \<^verbatim>\<open>re\<close> is a backtracking matcher: a lazy quantifier tries the rest of
  the pattern before it takes one more character, a greedy one takes all it can and
  gives characters back one at a time. Each piece of the pattern is a function from
  the text at the current position to the captured groups and the text after the match
  (\<^const>\<open>None\<close> when every alternative fails), written in the order in which the
  matcher tries the alternatives.
\<close>

definition newline :: char where
  "newline = CHR 0x0A"

text \<open>The dot matches every character but the newline (no \<^verbatim>\<open>re.DOTALL\<close>).\<close>

definition is_dot :: "char \<Rightarrow> bool" where
  "is_dot c = (c \<noteq> newline)"

text \<open>A literal piece of the pattern.\<close>

fun match_literal :: "string \<Rightarrow> string \<Rightarrow> string option" where
  "match_literal [] s = Some s"
| "match_literal (p # ps) [] = None"
| "match_literal (p # ps) (c # cs) = (if p = c then match_literal ps cs else None)"

text \<open>
  \<^verbatim>\<open>\.m3u(?:8)?</code>\<close>: the optional \<^verbatim>\<open>8\<close> is greedy, so the alternative with it is
  tried first. The result is the matched extension and the text after \<^verbatim>\<open></code>\<close>.
\<close>

definition match_extension :: "string \<Rightarrow> (string \<times> string) option" where
  "match_extension t =
     (case match_literal ''.m3u'' t of
        None \<Rightarrow> None
      | Some t1 \<Rightarrow>
          (case (case match_literal ''8'' t1 of
                   None \<Rightarrow> None
                 | Some t2 \<Rightarrow> match_literal ''</code>'' t2) of
             Some rest \<Rightarrow> Some (''.m3u8'', rest)
           | None \<Rightarrow>
               (case match_literal ''</code>'' t1 of
                  None \<Rightarrow> None
                | Some rest \<Rightarrow> Some (''.m3u'', rest))))"

text \<open>
  \<^verbatim>\<open>[^\s]+\<close> followed by the extension: the greedy run is tried at its longest
  length \<open>n\<close> first, then \<open>n - 1\<close>, down to one character.
\<close>

fun match_host_path :: "nat \<Rightarrow> string \<Rightarrow> (string \<times> string) option" where
  "match_host_path 0 t = None"
| "match_host_path (Suc n) t =
     (case match_extension (drop (Suc n) t) of
        Some (ext, rest) \<Rightarrow> Some (take (Suc n) t @ ext, rest)
      | None \<Rightarrow> match_host_path n t)"

text \<open>\<^verbatim>\<open><code>(https://[^\s]+\.m3u(?:8)?)</code>\<close>: the captured URL and the text after.\<close>

definition match_code :: "string \<Rightarrow> (string \<times> string) option" where
  "match_code t =
     (case match_literal ''<code>https://'' t of
        None \<Rightarrow> None
      | Some t1 \<Rightarrow>
          (case match_host_path (length (takeWhile (\<lambda>c. \<not> is_space c) t1)) t1 of
             None \<Rightarrow> None
           | Some (body, rest) \<Rightarrow> Some (''https://'' @ body, rest)))"

text \<open>\<^verbatim>\<open>.*?\<close> before the code span: lazy, so the span is tried at every position in turn.\<close>

fun match_gap :: "string \<Rightarrow> (string \<times> string) option" where
  "match_gap [] = match_code []"
| "match_gap (c # cs) =
     (case match_code (c # cs) of
        Some r \<Rightarrow> Some r
      | None \<Rightarrow> (if is_dot c then match_gap cs else None))"

text \<open>
  \<^verbatim>\<open>(.+?)</td>\<close> and the rest: the name takes one character, then the rest of the
  pattern is tried; when that fails the name takes one more character.
\<close>

fun match_name :: "string \<Rightarrow> (string \<times> string \<times> string) option" where
  "match_name [] = None"
| "match_name (c # cs) =
     (if is_dot c then
        (case (case match_literal ''</td>'' cs of
                 None \<Rightarrow> None
               | Some t \<Rightarrow> match_gap t) of
           Some (url, rest) \<Rightarrow> Some ([c], url, rest)
         | None \<Rightarrow>
             (case match_name cs of
                None \<Rightarrow> None
              | Some (name, url, rest) \<Rightarrow> Some (c # name, url, rest)))
      else None)"

text \<open>The whole pattern at one start position: the two groups and the text after the match.\<close>

definition match_at :: "string \<Rightarrow> (string \<times> string \<times> string) option" where
  "match_at s =
     (case match_literal ''<td>'' s of
        None \<Rightarrow> None
      | Some t \<Rightarrow> match_name t)"

text \<open>
  \<^verbatim>\<open>re.findall\<close>: the start positions are tried from left to right; after a match the
  scan goes on at the end of the match (matches do not overlap). The second equation
  drops from \<open>cs\<close> what the match consumed after \<open>c\<close>, which leaves \<open>rest\<close>.
\<close>

fun findall :: "string \<Rightarrow> (string \<times> string) list" where
  "findall [] = []"
| "findall (c # cs) =
     (case match_at (c # cs) of
        None \<Rightarrow> findall cs
      | Some (name, url, rest) \<Rightarrow> (name, url) # findall (drop (length cs - length rest) cs))"

text \<open>
  The dict comprehension \<^verbatim>\<open>{clean_category_name(name): url for name, url in matches}\<close>.
  A Python dict keeps its keys in the order of their first insertion and a later
  insertion under a present key replaces the value in place, which is what
  \<^const>\<open>AList.update\<close> does on an association list.
\<close>

definition dict_of_matches :: "(string \<times> string) list \<Rightarrow> (string \<times> string) list" where
  "dict_of_matches matches =
     foldl (\<lambda>d (name, url). AList.update (clean_category_name name) url d) [] matches"

section \<open>The world: network, files and the log\<close>

text \<open>
  Everything the script does to its surroundings goes through a \<open>world\<close> value that
  is passed along. \<^verbatim>\<open>requests.get\<close> and \<^verbatim>\<open>requests.head\<close> either return a response
  or raise a subclass of \<^verbatim>\<open>requests.RequestException\<close> (the one class the script
  catches); the answer of the network to the \<open>t\<close>-th request is given by two oracles,
  so the same URL may answer differently at different times. The file system is a map
  from paths to texts on which a write succeeds; reading an absent path raises. Each
  \<^verbatim>\<open>logging\<close> call of the source appends one event to the log.
\<close>

datatype request_exception = Timeout | ConnectionError | HTTPError nat | OtherRequestException


datatype event =
    StartingScript
  | FetchingReadme string
  | FetchedReadme
  | ErrorFetchingReadme request_exception
  | ExtractingLinks
  | FoundLinks nat
  | DownloadingFile string string
  | SavedFile string
  | FailedDownload string string request_exception
  | UrlAvailable string
  | UrlUnavailable nat string
  | ErrorCheckingUrl string request_exception
  | ProcessingFile string
  | SavedAvailable string string
  | SavedUnavailable string string
  | ErrorProcessing string
  | FailedFetchExiting
  | NoLinksExiting
  | ScriptCompleted


record world =
  http_get :: "nat \<Rightarrow> string \<Rightarrow> request_exception + nat \<times> string"
  http_head :: "nat \<Rightarrow> string \<Rightarrow> request_exception + nat"
  clock :: nat
  files :: "string \<rightharpoonup> string"
  log :: "event list"

definition logging :: "event \<Rightarrow> world \<Rightarrow> world" where
  "logging e w = w\<lparr>log := log w @ [e]\<rparr>"


definition requests_head :: "string \<Rightarrow> world \<Rightarrow> (request_exception + nat) \<times> world" where
  "requests_head url w = (http_head w (clock w) url, w\<lparr>clock := Suc (clock w)\<rparr>)"


text \<open>
  \<^verbatim>\<open>open(path, "w")\<close> followed by \<^verbatim>\<open>file.write(text)\<close>: on POSIX the text is stored
  as it is, and the write is taken to succeed.
\<close>

definition write_file :: "string \<Rightarrow> string \<Rightarrow> world \<Rightarrow> world" where
  "write_file path text w = w\<lparr>files := (files w)(path \<mapsto> text)\<rparr>"

text \<open>
  \<^verbatim>\<open>os.path.join\<close> on two components (POSIX): an absolute second component replaces
  the first.
\<close>

definition path_join :: "string \<Rightarrow> string \<Rightarrow> string" where
  "path_join a b =
     (if prefix ''/'' b then b
      else if a = [] \<or> suffix ''/'' a then a @ b
      else a @ ''/'' @ b)"

definition README_URL :: string where
  "README_URL = ''https://raw.githubusercontent.com/iptv-org/iptv/master/README.md''"


definition PROCESSED_FOLDER :: string where
  "PROCESSED_FOLDER = ''processed''"

section \<open>Fetching, extracting and downloading\<close>


text \<open>\<^verbatim>\<open>extract_m3u_links_with_names\<close>, lines 50-58.\<close>

definition extract_m3u_links_with_names ::
    "string \<Rightarrow> world \<Rightarrow> (string \<times> string) list \<times> world" where
  "extract_m3u_links_with_names readme_content w =
     (let w1 = logging ExtractingLinks w;
          matches = findall readme_content;
          m3u_links = dict_of_matches matches;
          w2 = logging (FoundLinks (length m3u_links)) w1
      in (m3u_links, w2))"


section \<open>Probing and partitioning a playlist\<close>

text \<open>\<^verbatim>\<open>check_url_availability\<close>, lines 77-91.\<close>

definition check_url_availability :: "string \<Rightarrow> world \<Rightarrow> bool \<times> world" where
  "check_url_availability url w =
     (let (response, w1) = requests_head url w
      in case response of
           Inr status_code \<Rightarrow>
             (if status_code = 200 then (True, logging (UrlAvailable url) w1)
              else (False, logging (UrlUnavailable status_code url) w1))
         | Inl e \<Rightarrow> (False, logging (ErrorCheckingUrl url e) w1))"

text \<open>
  \<^verbatim>\<open>file.readlines()\<close> on a file opened in text mode: \<^verbatim>\<open>\r\n\<close> and a lone \<^verbatim>\<open>\r\<close>
  are read as \<^verbatim>\<open>\n\<close> (universal newlines), and every line keeps its final \<^verbatim>\<open>\n\<close>.
\<close>

definition carriage_return :: char where
  "carriage_return = CHR 0x0D"

fun universal_newlines :: "string \<Rightarrow> string" where
  "universal_newlines [] = []"
| "universal_newlines [c] = [if c = carriage_return then newline else c]"
| "universal_newlines (c # d # cs) =
     (if c = carriage_return \<and> d = newline then newline # universal_newlines cs
      else if c = carriage_return then newline # universal_newlines (d # cs)
      else c # universal_newlines (d # cs))"

fun split_lines :: "string \<Rightarrow> string \<Rightarrow> string list" where
  "split_lines cur [] = (if cur = [] then [] else [cur])"
| "split_lines cur (c # cs) =
     (if c = newline then (cur @ [c]) # split_lines [] cs
      else split_lines (cur @ [c]) cs)"

definition readlines :: "string \<Rightarrow> string list" where
  "readlines text = split_lines [] (universal_newlines text)"

text \<open>\<^verbatim>\<open>"\n".join(links)\<close>.\<close>

fun join_lines :: "string list \<Rightarrow> string" where
  "join_lines [] = []"
| "join_lines [x] = x"
| "join_lines (x # y # ys) = x @ [newline] @ join_lines (y # ys)"

text \<open>The entry \<^verbatim>\<open>f"{current_metadata}\n{line}"\<close> of lines 112 and 114.\<close>

definition format_entry :: "string \<Rightarrow> string \<Rightarrow> string" where
  "format_entry current_metadata line = current_metadata @ [newline] @ line"

text \<open>
  The loop of lines 105-114. Its state is \<^verbatim>\<open>current_metadata\<close>, \<^verbatim>\<open>available_links\<close>,
  \<^verbatim>\<open>unavailable_links\<close> and the world; \<open>process_line\<close> is one turn of the loop body.
\<close>

type_synonym loop_state = "string \<times> string list \<times> string list \<times> world"

fun process_line :: "string \<Rightarrow> loop_state \<Rightarrow> loop_state" where
  "process_line raw (current_metadata, available_links, unavailable_links, w) =
     (let line = strip raw
      in if prefix ''#EXTINF'' line then (line, available_links, unavailable_links, w)
         else if prefix ''http'' line then
           (let (is_available, w1) = check_url_availability line w
            in if is_available
               then (current_metadata,
                     available_links @ [format_entry current_metadata line],
                     unavailable_links, w1)
               else (current_metadata, available_links,
                     unavailable_links @ [format_entry current_metadata line], w1))
         else (current_metadata, available_links, unavailable_links, w))"

fun scan_lines :: "string list \<Rightarrow> loop_state \<Rightarrow> loop_state" where
  "scan_lines [] st = st"
| "scan_lines (raw # lines) st = scan_lines lines (process_line raw st)"


definition available_file :: "string \<Rightarrow> string" where
  "available_file name = path_join PROCESSED_FOLDER (''available_'' @ name @ ''.m3u'')"

definition unavailable_file :: "string \<Rightarrow> string" where
  "unavailable_file name = path_join PROCESSED_FOLDER (''unavailable_'' @ name @ ''.m3u'')"

text \<open>
  \<^verbatim>\<open>process_m3u_file\<close>, lines 94-129. Opening an absent file raises inside the
  \<^verbatim>\<open>try\<close>, which logs the error and writes nothing.
\<close>

definition process_m3u_file :: "string \<Rightarrow> string \<Rightarrow> world \<Rightarrow> world" where
  "process_m3u_file name file_path w =
     (let w1 = logging (ProcessingFile file_path) w
      in case files w1 file_path of
           None \<Rightarrow> logging (ErrorProcessing name) w1
         | Some text \<Rightarrow>
             (let lines = readlines text;
                  (current_metadata, available_links, unavailable_links, w2) =
                     scan_lines lines ([], [], [], w1);
                  w3 = write_file (available_file name) (join_lines available_links) w2;
                  w4 = logging (SavedAvailable name (available_file name)) w3;
                  w5 = write_file (unavailable_file name) (join_lines unavailable_links) w4;
                  w6 = logging (SavedUnavailable name (unavailable_file name)) w5
              in w6))"

section \<open>The orchestrator\<close>



section \<open>What the claims observe\<close>

text \<open>
  The normalizer as the specification words it (section 4.1): replace the
  non-breaking-space entity by a space, remove every character that is neither
  alphanumeric nor whitespace, trim, and turn each whitespace run into one underscore.
  It is compared with \<^const>\<open>clean_category_name\<close> below.
\<close>

definition normalize_spec :: "string \<Rightarrow> string" where
  "normalize_spec x =
     spaces_to_underscore
       (strip (filter (\<lambda>c. is_alnum c \<or> is_space c) (str_replace ''&nbsp;'' '' '' x)))"











text \<open>
  Sample inputs for the closed instances below: an index document with three records,
  of which the first and the third have the same normalized name, and a playlist whose
  second URL line has no metadata line of its own.
\<close>

definition sample_index :: string where
  "sample_index =
     ''<td>News</td><td><code>https://iptv.test/news.m3u</code></td>'' @ [newline]
     @ ''<td>Sport</td><td><code>https://iptv.test/sport.m3u8</code></td>'' @ [newline]
     @ ''<td>News!</td><td><code>https://iptv.test/news2.m3u</code></td>''"

definition sample_playlist :: string where
  "sample_playlist =
     ''#EXTINF:-1,Channel A'' @ [newline] @ ''http://a.test/1'' @ [newline]
     @ ''http://b.test/2'' @ [newline]
     @ ''#EXTINF:-1,Channel C'' @ [newline] @ ''http://c.test/3''"

text \<open>
  A world in which the index is \<open>sample_index\<close>, the download of the \<^verbatim>\<open>Sport\<close>
  playlist times out, every other download returns \<open>sample_playlist\<close>, and the three
  entries answer 200, 404 and with a refused connection.
\<close>

definition sample_world :: world where
  "sample_world =
     \<lparr>http_get = (\<lambda>t url.
          if url = README_URL then Inr (200, sample_index)
          else if url = ''https://iptv.test/sport.m3u8'' then Inl Timeout
          else Inr (200, sample_playlist)),
      http_head = (\<lambda>t url.
          if url = ''http://a.test/1'' then Inr 200
          else if url = ''http://b.test/2'' then Inr 404
          else Inl ConnectionError),
      clock = 0, files = Map.empty, log = []\<rparr>"





section \<open>Lemmas on the normalizer\<close>

lemma amp_not_word: "\<not> is_word CHR ''&''"
  by (simp add: is_word_def is_alnum_def)

lemma underscore_not_space: "\<not> is_space CHR ''_''"
  by (simp add: is_space_def)

lemma underscore_word: "is_word CHR ''_''"
  by (simp add: is_word_def)

lemma alnum_not_space: "is_alnum c \<Longrightarrow> \<not> is_space c"
  unfolding is_alnum_def is_space_def Let_def by arith

lemma word_not_space: "is_word c \<Longrightarrow> \<not> is_space c"
  using alnum_not_space underscore_not_space by (auto simp: is_word_def)

lemma replace_scan_absent:
  "old \<noteq> [] \<Longrightarrow> hd old \<notin> set s \<Longrightarrow> replace_scan old new s = s"
proof (induction s)
  case Nil
  then show ?case by simp
next
  case (Cons c cs)
  then have "\<not> prefix old (c # cs)"
    by (cases old) auto
  with Cons show ?case by simp
qed

lemma str_replace_nbsp_absent:
  "CHR ''&'' \<notin> set s \<Longrightarrow> str_replace ''&nbsp;'' '' '' s = s"
  using replace_scan_absent [of "''&nbsp;''" s "'' ''"] by (simp add: str_replace_def)

lemma replace_scan_chars:
  "c \<in> set (replace_scan old new s) \<Longrightarrow> c \<in> set s \<or> c \<in> set new"
proof (induction old new s rule: replace_scan.induct)
  case (1 old new)
  then show ?case by simp
next
  case (2 old new d ds)
  then show ?case
    by (auto split: if_splits dest: in_set_dropD)
qed

lemma str_replace_nbsp_underscore:
  "CHR ''_'' \<notin> set s \<Longrightarrow> CHR ''_'' \<notin> set (str_replace ''&nbsp;'' '' '' s)"
  using replace_scan_chars [of "CHR ''_''" "''&nbsp;''" "'' ''" s] by (auto simp: str_replace_def)

lemma dropWhile_none: "\<forall>x\<in>set xs. \<not> P x \<Longrightarrow> dropWhile P xs = xs"
  by (cases xs) auto

lemma strip_no_space: "\<forall>c\<in>set s. \<not> is_space c \<Longrightarrow> strip s = s"
  by (simp add: strip_def dropWhile_none)

lemma strip_subset: "c \<in> set (strip s) \<Longrightarrow> c \<in> set s"
  unfolding strip_def by (auto dest!: set_dropWhileD)

lemma spaces_to_underscore_no_space:
  "\<forall>c\<in>set s. \<not> is_space c \<Longrightarrow> spaces_to_underscore s = s"
  by (induction s) auto

lemma spaces_to_underscore_chars:
  "c \<in> set (spaces_to_underscore s) \<Longrightarrow> c = CHR ''_'' \<or> (c \<in> set s \<and> \<not> is_space c)"
proof (induction s rule: spaces_to_underscore.induct)
  case 1
  then show ?case by simp
next
  case (2 d ds)
  then show ?case
    by (auto split: if_splits dest: set_dropWhileD)
qed

lemma clean_category_name_chars:
  assumes "c \<in> set (clean_category_name x)"
  shows "is_word c \<and> \<not> is_space c"
proof -
  let ?r = "remove_special (str_replace ''&nbsp;'' '' '' x)"
  from assms have "c \<in> set (spaces_to_underscore (strip ?r))"
    by (simp add: clean_category_name_def)
  then consider "c = CHR ''_''" | "c \<in> set (strip ?r)" "\<not> is_space c"
    using spaces_to_underscore_chars by blast
  then show ?thesis
  proof cases
    case 1
    then show ?thesis using underscore_word underscore_not_space by simp
  next
    case 2
    then have "c \<in> set ?r" using strip_subset by blast
    then have "is_word c \<or> is_space c" by (simp add: remove_special_def)
    with 2 show ?thesis by simp
  qed
qed

lemma clean_category_name_fixed:
  assumes "\<forall>c\<in>set s. is_word c"
  shows "clean_category_name s = s"
proof -
  from assms have ns: "\<forall>c\<in>set s. \<not> is_space c" using word_not_space by blast
  from assms have "CHR ''&'' \<notin> set s" using amp_not_word by blast
  then have 1: "str_replace ''&nbsp;'' '' '' s = s" by (rule str_replace_nbsp_absent)
  from assms have 2: "remove_special s = s" by (simp add: remove_special_def)
  show ?thesis
    by (simp add: clean_category_name_def 1 2 strip_no_space [OF ns]
        spaces_to_underscore_no_space [OF ns])
qed

section \<open>Lemmas on the extractor\<close>

lemma match_literal_Some: "match_literal p s = Some r \<Longrightarrow> s = p @ r"
  by (induction p s rule: match_literal.induct) (auto split: if_splits)

lemma match_extension_Some:
  assumes "match_extension t = Some (ext, rest)"
  shows "(ext = ''.m3u'' \<or> ext = ''.m3u8'') \<and> t = ext @ ''</code>'' @ rest"
proof -
  from assms obtain t1 where t1: "match_literal ''.m3u'' t = Some t1"
    by (auto simp: match_extension_def split: option.splits)
  then have t: "t = ''.m3u'' @ t1" by (rule match_literal_Some)
  show ?thesis
  proof (cases "case match_literal ''8'' t1 of None \<Rightarrow> None
                     | Some t2 \<Rightarrow> match_literal ''</code>'' t2")
    case None
    with assms t1 have "ext = ''.m3u''" and "match_literal ''</code>'' t1 = Some rest"
      by (auto simp: match_extension_def split: option.splits)
    with t match_literal_Some [of "''</code>''" t1 rest] show ?thesis by simp
  next
    case (Some r)
    with assms t1 have e: "ext = ''.m3u8''" and r: "r = rest"
      by (auto simp: match_extension_def split: option.splits)
    from Some obtain t2 where "match_literal ''8'' t1 = Some t2"
      and "match_literal ''</code>'' t2 = Some r"
      by (auto split: option.splits)
    then have "t1 = ''8'' @ t2" and "t2 = ''</code>'' @ r"
      by (auto dest: match_literal_Some)
    with t e r show ?thesis by simp
  qed
qed

lemma match_host_path_Some:
  "match_host_path n t = Some (body, rest) \<Longrightarrow>
     \<exists>k ext. 0 < k \<and> k \<le> n \<and> (ext = ''.m3u'' \<or> ext = ''.m3u8'')
       \<and> body = take k t @ ext \<and> drop k t = ext @ ''</code>'' @ rest"
proof (induction n)
  case 0
  then show ?case by simp
next
  case (Suc n)
  show ?case
  proof (cases "match_extension (drop (Suc n) t)")
    case None
    with Suc.prems have "match_host_path n t = Some (body, rest)" by simp
    from Suc.IH [OF this] obtain k ext where "0 < k" "k \<le> n"
      "ext = ''.m3u'' \<or> ext = ''.m3u8''" "body = take k t @ ext"
      "drop k t = ext @ ''</code>'' @ rest"
      by blast
    then have "0 < k \<and> k \<le> Suc n \<and> (ext = ''.m3u'' \<or> ext = ''.m3u8'')
       \<and> body = take k t @ ext \<and> drop k t = ext @ ''</code>'' @ rest"
      by simp
    then show ?thesis by blast
  next
    case (Some p)
    obtain ext r where p: "p = (ext, r)" by (cases p)
    with Some Suc.prems have "body = take (Suc n) t @ ext" and "r = rest" by auto
    moreover from Some p match_extension_Some
    have "(ext = ''.m3u'' \<or> ext = ''.m3u8'') \<and> drop (Suc n) t = ext @ ''</code>'' @ r"
      by blast
    ultimately show ?thesis by blast
  qed
qed

lemma take_takeWhile_all:
  "k \<le> length (takeWhile P xs) \<Longrightarrow> \<forall>x\<in>set (take k xs). P x"
proof -
  assume "k \<le> length (takeWhile P xs)"
  then have "take k xs = take k (takeWhile P xs)"
    by (metis append_eq_conv_conj takeWhile_dropWhile_id take_append min.absorb2 take_take
        diff_is_0_eq' take_0 append_Nil2 min.commute)
  then show ?thesis
    by (metis in_set_takeD set_takeWhileD)
qed

text \<open>What a match of the code span says about the URL and the text.\<close>

lemma match_code_Some:
  assumes "match_code t = Some (url, rest)"
  shows "prefix ''https://'' url \<and> (\<forall>c\<in>set url. \<not> is_space c)
         \<and> (suffix ''.m3u'' url \<or> suffix ''.m3u8'' url)
         \<and> t = ''<code>'' @ url @ ''</code>'' @ rest"
proof -
  from assms obtain t1 body where t1: "match_literal ''<code>https://'' t = Some t1"
    and b: "match_host_path (length (takeWhile (\<lambda>c. \<not> is_space c) t1)) t1 = Some (body, rest)"
    and u: "url = ''https://'' @ body"
    by (auto simp: match_code_def split: option.splits)
  from t1 have t: "t = ''<code>https://'' @ t1" by (rule match_literal_Some)
  from match_host_path_Some [OF b] obtain k ext where k: "0 < k"
    "k \<le> length (takeWhile (\<lambda>c. \<not> is_space c) t1)"
    and ext: "ext = ''.m3u'' \<or> ext = ''.m3u8''"
    and body: "body = take k t1 @ ext" and d: "drop k t1 = ext @ ''</code>'' @ rest"
    by blast
  have ns: "\<forall>c\<in>set (take k t1). \<not> is_space c"
    using take_takeWhile_all [OF k(2)] .
  have "\<forall>c\<in>set ext. \<not> is_space c"
    using ext by (auto simp: is_space_def)
  with ns have 1: "\<forall>c\<in>set url. \<not> is_space c"
    by (auto simp: u body is_space_def)
  have 2: "suffix ''.m3u'' url \<or> suffix ''.m3u8'' url"
    using ext unfolding u body suffix_def by (metis append.assoc)
  have "t1 = take k t1 @ drop k t1" by simp
  with d have "t1 = body @ ''</code>'' @ rest" by (simp add: body)
  with t u have 3: "t = ''<code>'' @ url @ ''</code>'' @ rest" by simp
  from u 1 2 3 show ?thesis by (simp add: prefix_def)
qed

lemma match_gap_Some:
  "match_gap t = Some (url, rest) \<Longrightarrow>
     \<exists>gap. t = gap @ ''<code>'' @ url @ ''</code>'' @ rest \<and> match_code (drop (length gap) t) = Some (url, rest)"
proof (induction t)
  case Nil
  then show ?case by (simp add: match_code_def)
next
  case (Cons c cs)
  show ?case
  proof (cases "match_code (c # cs)")
    case None
    with Cons.prems have "match_gap cs = Some (url, rest)" by (simp split: if_splits)
    from Cons.IH [OF this] obtain gap where "cs = gap @ ''<code>'' @ url @ ''</code>'' @ rest"
      "match_code (drop (length gap) cs) = Some (url, rest)"
      by blast
    then have "c # cs = (c # gap) @ ''<code>'' @ url @ ''</code>'' @ rest
       \<and> match_code (drop (length (c # gap)) (c # cs)) = Some (url, rest)"
      by simp
    then show ?thesis by blast
  next
    case (Some r)
    with Cons.prems have m: "match_code (c # cs) = Some (url, rest)" by simp
    from match_code_Some [OF m] have "c # cs = [] @ ''<code>'' @ url @ ''</code>'' @ rest"
      by simp
    with m show ?thesis by (metis drop0 list.size(3))
  qed
qed

lemma match_name_Some:
  "match_name t = Some (name, url, rest) \<Longrightarrow>
     name \<noteq> [] \<and> (\<exists>gap. t = name @ ''</td>'' @ gap @ ''<code>'' @ url @ ''</code>'' @ rest
        \<and> match_code (''<code>'' @ url @ ''</code>'' @ rest) = Some (url, rest))"
proof (induction t arbitrary: name)
  case Nil
  then show ?case by simp
next
  case (Cons c cs)
  from Cons.prems have dot: "is_dot c" by (simp split: if_splits)
  show ?case
  proof (cases "case match_literal ''</td>'' cs of None \<Rightarrow> None | Some t \<Rightarrow> match_gap t")
    case None
    with Cons.prems dot obtain name' where n: "match_name cs = Some (name', url, rest)"
      and nm: "name = c # name'"
      by (auto split: option.splits)
    from Cons.IH [OF n] nm show ?thesis by auto
  next
    case (Some p)
    with Cons.prems dot have nm: "name = [c]" and p: "p = (url, rest)" by auto
    from Some p obtain t' where "match_literal ''</td>'' cs = Some t'"
      and g: "match_gap t' = Some (url, rest)"
      by (auto split: option.splits)
    then have cs: "cs = ''</td>'' @ t'" by (auto dest: match_literal_Some)
    from match_gap_Some [OF g] obtain gap where t': "t' = gap @ ''<code>'' @ url @ ''</code>'' @ rest"
      and mc: "match_code (drop (length gap) t') = Some (url, rest)"
      by blast
    from t' have "drop (length gap) t' = ''<code>'' @ url @ ''</code>'' @ rest" by simp
    with mc have "match_code (''<code>'' @ url @ ''</code>'' @ rest) = Some (url, rest)" by simp
    with nm cs t' show ?thesis by auto
  qed
qed

lemma match_at_Some:
  assumes "match_at s = Some (name, url, rest)"
  shows "name \<noteq> [] \<and> prefix ''https://'' url \<and> (\<forall>c\<in>set url. \<not> is_space c)
         \<and> (suffix ''.m3u'' url \<or> suffix ''.m3u8'' url)
         \<and> (\<exists>gap. s = ''<td>'' @ name @ ''</td>'' @ gap @ ''<code>'' @ url @ ''</code>'' @ rest)"
proof -
  from assms obtain t where "match_literal ''<td>'' s = Some t"
    and n: "match_name t = Some (name, url, rest)"
    by (auto simp: match_at_def split: option.splits)
  then have s: "s = ''<td>'' @ t" by (auto dest: match_literal_Some)
  from match_name_Some [OF n] obtain gap where ne: "name \<noteq> []"
    and t: "t = name @ ''</td>'' @ gap @ ''<code>'' @ url @ ''</code>'' @ rest"
    and mc: "match_code (''<code>'' @ url @ ''</code>'' @ rest) = Some (url, rest)"
    by blast
  from match_code_Some [OF mc] ne s t show ?thesis by auto
qed

lemma match_at_rest:
  assumes "match_at (c # cs) = Some (name, url, rest)"
  shows "drop (length cs - length rest) cs = rest"
proof -
  from match_at_Some [OF assms] obtain gap where
    "c # cs = ''<td>'' @ name @ ''</td>'' @ gap @ ''<code>'' @ url @ ''</code>'' @ rest"
    by blast
  then have "cs = (''td>'' @ name @ ''</td>'' @ gap @ ''<code>'' @ url @ ''</code>'') @ rest"
    by simp
  then show ?thesis
    by (metis append_eq_conv_conj add_diff_cancel_right' length_append)
qed

lemma findall_match:
  "match_at (c # cs) = Some (name, url, rest) \<Longrightarrow> findall (c # cs) = (name, url) # findall rest"
  by (simp add: match_at_rest)

lemma findall_urls:
  "(name, url) \<in> set (findall s) \<Longrightarrow>
     name \<noteq> [] \<and> prefix ''https://'' url \<and> (\<forall>c\<in>set url. \<not> is_space c)
     \<and> (suffix ''.m3u'' url \<or> suffix ''.m3u8'' url)"
proof (induction s rule: findall.induct)
  case 1
  then show ?case by simp
next
  case (2 c cs)
  show ?case
  proof (cases "match_at (c # cs)")
    case None
    with 2 show ?thesis by simp
  next
    case (Some p)
    obtain n u r where p: "p = (n, u, r)" by (cases p)
    from "2.prems" Some p consider "(name, url) = (n, u)"
      | "(name, url) \<in> set (findall (drop (length cs - length r) cs))"
      by auto
    then show ?thesis
    proof cases
      case 1
      with Some p match_at_Some [of "c # cs" n u r] show ?thesis by simp
    next
      case 2
      have "match_at (c # cs) = Some (n, u, r)" using Some p by simp
      from "2.IH"(2) [OF this refl refl 2] show ?thesis .
    qed
  qed
qed

lemma update_set: "(a, b) \<in> set (AList.update k v al) \<Longrightarrow> (a, b) = (k, v) \<or> (a, b) \<in> set al"
  by (induction al) (auto split: if_splits)

lemma dict_of_matches_snoc:
  "dict_of_matches (ms @ [(n, u)]) = AList.update (clean_category_name n) u (dict_of_matches ms)"
  by (simp add: dict_of_matches_def)

lemma dict_of_matches_set:
  "(k, v) \<in> set (dict_of_matches ms) \<Longrightarrow> \<exists>n. (n, v) \<in> set ms \<and> k = clean_category_name n"
proof (induction ms arbitrary: k v rule: rev_induct)
  case Nil
  then show ?case by (simp add: dict_of_matches_def)
next
  case (snoc x xs)
  obtain n u where x: "x = (n, u)" by (cases x)
  from snoc.prems have "(k, v) = (clean_category_name n, u) \<or> (k, v) \<in> set (dict_of_matches xs)"
    unfolding x dict_of_matches_snoc by (rule update_set)
  with snoc.IH x show ?case by auto
qed

lemma dict_of_matches_distinct: "distinct (map fst (dict_of_matches ms))"
proof (induction ms rule: rev_induct)
  case Nil
  then show ?case by (simp add: dict_of_matches_def)
next
  case (snoc x xs)
  then show ?case by (cases x) (simp add: dict_of_matches_snoc distinct_update)
qed

lemma dict_of_matches_map_of:
  "map_of (dict_of_matches ms) = map_of (rev (map (\<lambda>(n, u). (clean_category_name n, u)) ms))"
proof (induction ms rule: rev_induct)
  case Nil
  then show ?case by (simp add: dict_of_matches_def)
next
  case (snoc x xs)
  then show ?case by (cases x) (simp add: dict_of_matches_snoc update_conv')
qed



lemma distinct_map_of_filter:
  "distinct (map fst al) \<Longrightarrow> map_of al k = Some v \<Longrightarrow> filter (\<lambda>(a, b). a = k) al = [(k, v)]"
proof (induction al)
  case Nil
  then show ?case by simp
next
  case (Cons p ps)
  obtain a b where p: "p = (a, b)" by (cases p)
  show ?case
  proof (cases "a = k")
    case True
    with Cons.prems p have "b = v" and "k \<notin> fst ` set ps" by auto
    then have "filter (\<lambda>(a, b). a = k) ps = []"
      by (force simp: filter_empty_conv)
    with True p \<open>b = v\<close> show ?thesis by simp
  next
    case False
    with Cons p show ?thesis by simp
  qed
qed

lemma dict_of_matches_last_wins:
  assumes "ms = ms1 @ (n2, u2) # ms3"
    and "\<forall>(n, u)\<in>set ms3. clean_category_name n \<noteq> clean_category_name n2"
  shows "map_of (dict_of_matches ms) (clean_category_name n2) = Some u2"
proof -
  let ?g = "\<lambda>(n, u). (clean_category_name n, u)"
  have "map_of (rev (map ?g ms3)) (clean_category_name n2) = None"
    using assms(2) by (auto simp: map_of_eq_None_iff)
  then show ?thesis
    by (simp add: dict_of_matches_map_of assms(1) map_add_def)
qed


lemma extract_links_eq:
  "extract_m3u_links_with_names content w =
     (dict_of_matches (findall content),
      logging (FoundLinks (length (dict_of_matches (findall content)))) (logging ExtractingLinks w))"
  by (simp add: extract_m3u_links_with_names_def Let_def)

lemma findall_sample_index:
  "findall sample_index =
     [(''News'', ''https://iptv.test/news.m3u''),
      (''Sport'', ''https://iptv.test/sport.m3u8''),
      (''News!'', ''https://iptv.test/news2.m3u'')]"
  by code_simp

lemma dict_sample_index:
  "dict_of_matches (findall sample_index) =
     [(''News'', ''https://iptv.test/news2.m3u''), (''Sport'', ''https://iptv.test/sport.m3u8'')]"
  unfolding findall_sample_index by code_simp

section \<open>Lemmas on probing and partitioning\<close>











lemma process_m3u_file_absent:
  "files w file_path = None \<Longrightarrow>
     process_m3u_file name file_path w
       = logging (ErrorProcessing name) (logging (ProcessingFile file_path) w)"
  by (simp add: process_m3u_file_def Let_def logging_def)


section \<open>Lemmas on the orchestrator\<close>




















section \<open>The claims\<close>

subsection \<open>The name normalizer\<close>

text \<open>
  Claim C3, as the code has it. The specification says that every character that is
  not alphanumeric or whitespace is removed, so that an underscore of the input would
  go. The class \<^verbatim>\<open>\w\<close> of the pattern \<^verbatim>\<open>[^\w\s]\<close> contains the underscore, so the
  code keeps it: on \<^verbatim>\<open>a_b\<close> the code returns \<^verbatim>\<open>a_b\<close> where the specification's
  wording gives \<^verbatim>\<open>ab\<close>.
\<close>

theorem clean_category_name_underscore_counterexample:
  "CHR ''_'' \<in> set (clean_category_name ''a_b'')
   \<and> clean_category_name ''a_b'' = ''a_b''
   \<and> normalize_spec ''a_b'' = ''ab''
   \<and> clean_category_name ''a_b'' \<noteq> normalize_spec ''a_b''"
  by (simp add: clean_category_name_def normalize_spec_def str_replace_def remove_special_def
      strip_def is_space_def is_word_def is_alnum_def)

text \<open>
  Claim C3, amended: the normalizer replaces the entity \<^verbatim>\<open>&nbsp;\<close> by a space, then
  removes every character that is not alphanumeric, an underscore or whitespace (an
  underscore of the input is kept), then trims and turns each whitespace run into one
  underscore. On an input without underscores this is the specification's wording, and
  \<^verbatim>\<open>" Some &nbsp; Name! "\<close> becomes \<^verbatim>\<open>"Some_Name"\<close>.
\<close>

theorem clean_category_name_steps:
  "clean_category_name x =
     spaces_to_underscore
       (strip (filter (\<lambda>c. is_alnum c \<or> c = CHR ''_'' \<or> is_space c)
                 (str_replace ''&nbsp;'' '' '' x)))
   \<and> (CHR ''_'' \<notin> set x \<longrightarrow> clean_category_name x = normalize_spec x)
   \<and> clean_category_name '' Some &nbsp; Name! '' = ''Some_Name''"
proof (intro conjI impI)
  show "clean_category_name x =
     spaces_to_underscore
       (strip (filter (\<lambda>c. is_alnum c \<or> c = CHR ''_'' \<or> is_space c)
                 (str_replace ''&nbsp;'' '' '' x)))"
    by (simp add: clean_category_name_def remove_special_def is_word_def disj_assoc)
next
  assume "CHR ''_'' \<notin> set x"
  then have "CHR ''_'' \<notin> set (str_replace ''&nbsp;'' '' '' x)"
    by (rule str_replace_nbsp_underscore)
  then have "filter (\<lambda>c. is_word c \<or> is_space c) (str_replace ''&nbsp;'' '' '' x)
             = filter (\<lambda>c. is_alnum c \<or> is_space c) (str_replace ''&nbsp;'' '' '' x)"
    by (intro filter_cong) (auto simp: is_word_def)
  then show "clean_category_name x = normalize_spec x"
    by (simp add: clean_category_name_def normalize_spec_def remove_special_def)
next
  show "clean_category_name '' Some &nbsp; Name! '' = ''Some_Name''"
    by (simp add: clean_category_name_def str_replace_def remove_special_def strip_def
        is_space_def is_word_def is_alnum_def)
qed

theorem clean_category_name_steps_witness:
  "CHR ''_'' \<notin> set ''a b!'' \<and> clean_category_name ''a b!'' = normalize_spec ''a b!''
   \<and> normalize_spec ''a b!'' = ''a_b''"
  using clean_category_name_steps [of "''a b!''"]
  by (simp add: normalize_spec_def str_replace_def strip_def is_space_def is_alnum_def)

text \<open>
  Claim C9: the normalizer is idempotent. Its result holds word characters only
  (what is left of a whitespace run is an underscore), and on such a string each of the
  three steps changes nothing.
\<close>

theorem clean_category_name_idempotent:
  "clean_category_name (clean_category_name x) = clean_category_name x"
  by (rule clean_category_name_fixed) (simp add: clean_category_name_chars)

subsection \<open>The link extractor\<close>

text \<open>
  Claim C4: when two matching records of a document have display names with the same
  normalized name and different URLs, the mapping of the extractor has exactly one
  entry under that name, and its URL is that of the later record. The theorem takes
  the later record to be the last one with that normalized name (records between the
  two may share it as well).
\<close>

theorem duplicate_names_last_wins:
  assumes "findall content = ms1 @ (n1, u1) # ms2 @ (n2, u2) # ms3"
    and "clean_category_name n1 = clean_category_name n2"
    and "u1 \<noteq> u2"
    and "\<forall>(n, u)\<in>set ms3. clean_category_name n \<noteq> clean_category_name n2"
  shows "filter (\<lambda>(k, v). k = clean_category_name n2)
           (fst (extract_m3u_links_with_names content w)) = [(clean_category_name n2, u2)]
         \<and> map_of (fst (extract_m3u_links_with_names content w)) (clean_category_name n2)
             = Some u2"
proof -
  have "findall content = (ms1 @ (n1, u1) # ms2) @ (n2, u2) # ms3"
    using assms(1) by simp
  then have "map_of (dict_of_matches (findall content)) (clean_category_name n2) = Some u2"
    using assms(4) by (rule dict_of_matches_last_wins)
  then show ?thesis
    using distinct_map_of_filter [OF dict_of_matches_distinct]
    by (simp add: extract_links_eq)
qed

theorem duplicate_names_last_wins_witness:
  "findall sample_index
     = [] @ (''News'', ''https://iptv.test/news.m3u'')
          # [(''Sport'', ''https://iptv.test/sport.m3u8'')]
          @ (''News!'', ''https://iptv.test/news2.m3u'') # []
   \<and> clean_category_name ''News'' = clean_category_name ''News!''
   \<and> ''https://iptv.test/news.m3u'' \<noteq> ''https://iptv.test/news2.m3u''
   \<and> filter (\<lambda>(k, v). k = clean_category_name ''News!'')
        (fst (extract_m3u_links_with_names sample_index sample_world))
       = [(clean_category_name ''News!'', ''https://iptv.test/news2.m3u'')]"
proof -
  have 1: "findall sample_index
     = [] @ (''News'', ''https://iptv.test/news.m3u'')
          # [(''Sport'', ''https://iptv.test/sport.m3u8'')]
          @ (''News!'', ''https://iptv.test/news2.m3u'') # []"
    by (simp add: findall_sample_index)
  have 2: "clean_category_name ''News'' = clean_category_name ''News!''"
    by code_simp
  have 3: "''https://iptv.test/news.m3u'' \<noteq> ''https://iptv.test/news2.m3u''"
    by simp
  have 4: "\<forall>(n, u)\<in>set []. clean_category_name n \<noteq> clean_category_name ''News!''"
    by simp
  from duplicate_names_last_wins [OF 1 2 3 4, of sample_world] 1 2 3 show ?thesis
    by blast
qed

text \<open>
  Claim C10: every URL in the mapping returned by the extractor begins with
  \<^verbatim>\<open>https://\<close> (so not with \<^verbatim>\<open>http://\<close>), holds no whitespace character and ends
  with \<^verbatim>\<open>.m3u\<close> or \<^verbatim>\<open>.m3u8\<close>. The orchestrator downloads the URLs of this mapping
  and no others (\<open>download_and_process\<close> is called on it).
\<close>

theorem extracted_urls_are_https_playlists:
  assumes "(name, url) \<in> set (fst (extract_m3u_links_with_names content w))"
  shows "prefix ''https://'' url \<and> \<not> prefix ''http://'' url
         \<and> (\<forall>c\<in>set url. \<not> is_space c)
         \<and> (suffix ''.m3u'' url \<or> suffix ''.m3u8'' url)"
proof -
  from assms have "(name, url) \<in> set (dict_of_matches (findall content))"
    by (simp add: extract_links_eq)
  then obtain n where "(n, url) \<in> set (findall content)"
    using dict_of_matches_set by blast
  then have u: "prefix ''https://'' url \<and> (\<forall>c\<in>set url. \<not> is_space c)
         \<and> (suffix ''.m3u'' url \<or> suffix ''.m3u8'' url)"
    using findall_urls by blast
  then have "\<not> prefix ''http://'' url"
    by (auto simp: prefix_def)
  with u show ?thesis by simp
qed

theorem extracted_urls_are_https_playlists_witness:
  "(''Sport'', ''https://iptv.test/sport.m3u8'')
     \<in> set (fst (extract_m3u_links_with_names sample_index sample_world))
   \<and> prefix ''https://'' ''https://iptv.test/sport.m3u8''
   \<and> list_all (\<lambda>c. \<not> is_space c) ''https://iptv.test/sport.m3u8''
   \<and> (suffix ''.m3u'' ''https://iptv.test/sport.m3u8''
        \<or> suffix ''.m3u8'' ''https://iptv.test/sport.m3u8'')"
proof -
  have h: "(''Sport'', ''https://iptv.test/sport.m3u8'')
     \<in> set (fst (extract_m3u_links_with_names sample_index sample_world))"
    by (simp add: extract_links_eq dict_sample_index)
  from extracted_urls_are_https_playlists [OF h] h show ?thesis
    by (simp add: list_all_iff)
qed

subsection \<open>Probing and partitioning a playlist\<close>








subsection \<open>The orchestrator\<close>









end
